theory Spec2Isabelle
  imports Complex_Main
begin

section \<open>The segment repository of peaks.js (src/waveform-segments.js)\<close>

text \<open>
  A shallow embedding of the class \<open>WaveformSegments\<close>. Every method is a function
  on an explicit state; a method that can throw returns a sum (\<open>Inl\<close> the error) together
  with the state the throw leaves behind, since a JavaScript exception does not undo the
  writes made before it.
\<close>

subsection \<open>JavaScript numbers, as far as the file compares them\<close>

text \<open>
  The file only compares times (\<open><\<close>, \<open>>\<close>, \<open>>=\<close>, \<open>===\<close>), it never computes with
  them. A Number is therefore \<open>NaN\<close>, an infinity, or a finite value; every finite double is
  a rational, and \<open>+0\<close> and \<open>-0\<close>, which no comparison tells apart, are both \<open>Finite 0\<close>.
\<close>

datatype number = NaN | NegInfinity | Finite rat | Infinity

text \<open>The abstract relational comparison \<open>x < y\<close> of ECMAScript: \<open>None\<close> is its
  result \<open>undefined\<close>, returned when an operand is \<open>NaN\<close>.\<close>

fun js_less :: "number \<Rightarrow> number \<Rightarrow> bool option" where
  "js_less NaN _ = None"
| "js_less _ NaN = None"
| "js_less NegInfinity NegInfinity = Some False"
| "js_less NegInfinity _ = Some True"
| "js_less _ NegInfinity = Some False"
| "js_less Infinity _ = Some False"
| "js_less _ Infinity = Some True"
| "js_less (Finite a) (Finite b) = Some (a < b)"

definition lt :: "number \<Rightarrow> number \<Rightarrow> bool" where
  "lt x y = (js_less x y = Some True)"

definition gt :: "number \<Rightarrow> number \<Rightarrow> bool" where
  "gt x y = (js_less y x = Some True)"

definition ge :: "number \<Rightarrow> number \<Rightarrow> bool" where
  "ge x y = (js_less x y = Some False)"

definition le :: "number \<Rightarrow> number \<Rightarrow> bool" where
  "le x y = (js_less y x = Some False)"

text \<open>Strict equality \<open>===\<close> on Numbers: \<open>NaN\<close> equals nothing, itself included.\<close>

definition strict_eq :: "number \<Rightarrow> number \<Rightarrow> bool" where
  "strict_eq x y = (x \<noteq> NaN \<and> x = y)"

subsection \<open>The counters, and the decimal strings of the id counter\<close>

text \<open>
  The two counters of the class are Numbers that start at 0 and that only \<open>++\<close> writes,
  so they hold integers from 0 to \<open>2^53\<close>. Below \<open>2^53\<close> the increment is exact; at
  \<open>2^53\<close> the sum \<open>2^53 + 1\<close> is no double and rounds back to \<open>2^53\<close>, so \<open>++\<close> leaves
  the counter where it is.
\<close>

definition js_incr :: "nat \<Rightarrow> nat" where
  "js_incr c = (if c < 2 ^ 53 then c + 1 else c)"

text \<open>
  \<open>'peaks.segment.' + n\<close> converts the counter to a string: for an integer of this range,
  its decimal digits.
\<close>

definition digit :: "nat \<Rightarrow> char" where
  "digit d = ''0123456789'' ! d"

function string_of_nat :: "nat \<Rightarrow> string" where
  "string_of_nat n = (if n < 10 then [digit n] else string_of_nat (n div 10) @ [digit (n mod 10)])"
  by pat_completeness auto
termination
  by (relation "measure (\<lambda>n. n)") auto

declare string_of_nat.simps [simp del]

subsection \<open>Segments, descriptors, events, errors\<close>

text \<open>
  A \<open>Segment\<close> object is its heap address \<open>oid\<close> together with its fields. The repository
  never writes to a field of a segment, so the fields found at an address do not change,
  and \<open>===\<close> on two segments compares the addresses. \<open>color\<close> is \<open>None\<close> when the
  source stores \<open>undefined\<close> there (a palette read out of range).
\<close>

record segment =
  oid :: nat
  id' :: string
  startTime :: number
  endTime :: number
  editable :: bool
  color :: "string option"
  labelText :: string

text \<open>\<open>SegmentOptions\<close>, the descriptor a caller passes: \<open>None\<close> is a property that is
  absent, \<open>undefined\<close> or \<open>null\<close>.\<close>

record SegmentOptions =
  opt_id :: "string option"
  opt_startTime :: number
  opt_endTime :: number
  opt_editable :: "bool option"
  opt_color :: "string option"
  opt_labelText :: "string option"

text \<open>What a caller can hand to \<open>add\<close>: an array, a descriptor object, or any other
  value (a number of the old positional API, a string, \<open>null\<close>, ...).\<close>

datatype jsval = JArray "jsval list" | JObject SegmentOptions | JOther

datatype error = TypeError | DuplicateId

datatype event =
    segments_add "segment list"
  | segments_remove "segment list"
  | segments_remove_all

subsection \<open>The state\<close>

text \<open>
  \<open>segments\<close> holds the address of the array \<open>this._segments\<close>; the arrays themselves
  live in \<open>heap\<close>, so that \<open>push\<close> and \<open>splice\<close> change an array in place and every
  holder of the address sees the change. \<open>next_addr\<close> and \<open>next_oid\<close> are the allocators
  of arrays and of segment objects. \<open>segmentsById\<close> holds the own properties of the object
  \<open>this._segmentsById\<close> and \<open>segmentsById_prototype\<close> its prototype: \<open>None\<close> is
  \<open>Object.prototype\<close>, which an object literal starts with. \<open>emitted\<close> records the calls of \<open>this._peaks.emit\<close>,
  oldest first; \<open>randomizeSegmentColor\<close> and \<open>segmentColor\<close> are \<open>this._peaks.options\<close>.
\<close>

record state =
  randomizeSegmentColor :: bool
  segmentColor :: string
  emitted :: "event list"
  heap :: "nat \<Rightarrow> segment list"
  next_addr :: nat
  next_oid :: nat
  segments :: nat
  segmentsById :: "string \<rightharpoonup> segment"
  segmentsById_prototype :: "segment option"
  segmentIdCounter :: nat
  colorIndex :: nat

text \<open>The contents of \<open>this._segments\<close>: the ordered sequence of the spec.\<close>

definition ordered :: "state \<Rightarrow> segment list" where
  "ordered st = heap st (segments st)"

definition emit :: "event \<Rightarrow> state \<Rightarrow> state" where
  "emit e st = st\<lparr>emitted := emitted st @ [e]\<rparr>"

text \<open>\<open>new WaveformSegments(peaks)\<close>, with the two options of \<open>peaks\<close> that the class reads.\<close>

definition constructor :: "bool \<Rightarrow> string \<Rightarrow> state" where
  "constructor randomize col =
     \<lparr>randomizeSegmentColor = randomize, segmentColor = col, emitted = [],
      heap = (\<lambda>_. []), next_addr = 1, next_oid = 0,
      segments = 0, segmentsById = Map.empty, segmentsById_prototype = None,
      segmentIdCounter = 0, colorIndex = 0\<rparr>"

subsection \<open>Helpers of utils.js and the Segment class\<close>

text \<open>Modelled from the spec: \<open>isObject\<close> of utils.js, which is not among the sources.
  The spec (4.2): normalization fails if the descriptor is not itself a structured
  key-value object.\<close>

fun isObject :: "jsval \<Rightarrow> bool" where
  "isObject (JObject _) = True"
| "isObject _ = False"

text \<open>Modelled from the spec: \<open>objectHasProperty\<close> of utils.js, which is not among the
  sources. The spec (4.3, 7): the id already exists in \<open>byId\<close>, that is, it is an own
  property of the object.\<close>

definition objectHasProperty :: "(string \<rightharpoonup> segment) \<Rightarrow> string \<Rightarrow> bool" where
  "objectHasProperty obj k = (obj k \<noteq> None)"

text \<open>Modelled from the spec: the constructor of \<open>Segment\<close> (segment.js), which is not among
  the sources. The spec (3, 4.2): a segment is its fields, which pass through unchanged,
  and the repository does not own their validation. The object is allocated at the next
  free address.\<close>

definition new_Segment ::
  "string \<Rightarrow> number \<Rightarrow> number \<Rightarrow> bool \<Rightarrow> string option \<Rightarrow> string \<Rightarrow> state \<Rightarrow> segment \<times> state" where
  "new_Segment i s e ed c l st =
     (\<lparr>oid = next_oid st, id' = i, startTime = s, endTime = e, editable = ed, color = c,
       labelText = l\<rparr>,
      st\<lparr>next_oid := next_oid st + 1\<rparr>)"

text \<open>\<open>Array.isArray\<close>.\<close>

fun isArray :: "jsval \<Rightarrow> bool" where
  "isArray (JArray _) = True"
| "isArray _ = False"

text \<open>The elements of an array value.\<close>

fun elements :: "jsval \<Rightarrow> jsval list" where
  "elements (JArray xs) = xs"
| "elements _ = []"

subsection \<open>Id and color assignment\<close>

definition colors :: "string list" where
  "colors = [''#001f3f'', ''#0074d9'', ''#7fdbff'', ''#39cccc'', ''#ffdc00'',
             ''#ff851b'', ''#ff4136'', ''#85144b'', ''#f012be'', ''#b10dc9'']"

text \<open>\<open>colors[i]\<close>: \<open>undefined\<close> out of range.\<close>

definition colors_at :: "nat \<Rightarrow> string option" where
  "colors_at i = (if i < length colors then Some (colors ! i) else None)"

definition getNextSegmentId :: "state \<Rightarrow> string \<times> state" where
  "getNextSegmentId st =
     (''peaks.segment.'' @ string_of_nat (segmentIdCounter st),
      st\<lparr>segmentIdCounter := js_incr (segmentIdCounter st)\<rparr>)"

definition getSegmentColor :: "state \<Rightarrow> string option \<times> state" where
  "getSegmentColor st =
     (if randomizeSegmentColor st then
        (let st' = st\<lparr>colorIndex :=
                        (if js_incr (colorIndex st) = length colors then 0
                         else js_incr (colorIndex st))\<rparr>
         in (colors_at (colorIndex st'), st'))
      else (Some (segmentColor st), st))"

subsection \<open>Adding\<close>

text \<open>
  \<open>this._segmentsById[segment.id] = segment\<close> is an ordinary property store, with one
  exception: for the name \<open>__proto__\<close>, unless the object has an own property of that
  name, the store reaches the setter inherited from \<open>Object.prototype\<close>, which makes the
  segment the prototype of the object and creates no own property. (A segment is an
  object of plain data fields, see \<open>new_Segment\<close>, so a prototype that is a segment does
  not change what a store does.)
\<close>

definition addSegment :: "segment \<Rightarrow> state \<Rightarrow> state" where
  "addSegment sg st =
     (let st1 = st\<lparr>heap := (heap st)(segments st := heap st (segments st) @ [sg])\<rparr> in
      if id' sg = ''__proto__'' \<and> segmentsById st ''__proto__'' = None
      then st1\<lparr>segmentsById_prototype := Some sg\<rparr>
      else st1\<lparr>segmentsById := (segmentsById st)(id' sg \<mapsto> sg)\<rparr>)"

definition createSegment :: "jsval \<Rightarrow> state \<Rightarrow> (error + segment) \<times> state" where
  "createSegment options st =
     (if \<not> isObject options then (Inl TypeError, st) else
      case options of
        JObject opts \<Rightarrow>
          (let (i, st1) = (case opt_id opts of None \<Rightarrow> getNextSegmentId st
                                              | Some x \<Rightarrow> (x, st));
               (c, st2) = (case opt_color opts of None \<Rightarrow> getSegmentColor st1
                                                 | Some x \<Rightarrow> (Some x, st1));
               l = (case opt_labelText opts of None \<Rightarrow> [] | Some x \<Rightarrow> x);
               ed = (case opt_editable opts of None \<Rightarrow> False | Some x \<Rightarrow> x);
               (sg, st3) = new_Segment i (opt_startTime opts) (opt_endTime opts) ed c l st2
           in (Inr sg, st3))
      | _ \<Rightarrow> (Inl TypeError, st))"

text \<open>The callback of \<open>segments.map\<close> in \<open>add\<close>, run over the batch from left to right:
  it stops at the first descriptor that throws.\<close>

fun add_map :: "jsval list \<Rightarrow> state \<Rightarrow> (error + segment list) \<times> state" where
  "add_map [] st = (Inr [], st)"
| "add_map (d # ds) st =
     (case createSegment d st of
        (Inl e, st1) \<Rightarrow> (Inl e, st1)
      | (Inr sg, st1) \<Rightarrow>
          if objectHasProperty (segmentsById st1) (id' sg) then (Inl DuplicateId, st1)
          else (case add_map ds st1 of
                  (Inl e, st2) \<Rightarrow> (Inl e, st2)
                | (Inr sgs, st2) \<Rightarrow> (Inr (sg # sgs), st2)))"

text \<open>\<open>segments.forEach\<close> in \<open>add\<close>.\<close>

fun add_forEach :: "segment list \<Rightarrow> state \<Rightarrow> state" where
  "add_forEach [] st = st"
| "add_forEach (sg # sgs) st = add_forEach sgs (addSegment sg st)"

text \<open>The batch \<open>add\<close> works on: \<open>arguments[0]\<close> when that is an array, all the
  arguments otherwise (\<open>Array.prototype.slice.call(arguments)\<close>).\<close>

definition segments_of_arguments :: "jsval list \<Rightarrow> jsval list" where
  "segments_of_arguments arguments =
     (case arguments of
        a0 # _ \<Rightarrow> if isArray a0 then elements a0 else arguments
      | [] \<Rightarrow> arguments)"

text \<open>\<open>add\<close> receives its \<open>arguments\<close> as a list. It returns nothing.\<close>

definition add :: "jsval list \<Rightarrow> state \<Rightarrow> (error + unit) \<times> state" where
  "add arguments st =
     (case add_map (segments_of_arguments arguments) st of
        (Inl e, st1) \<Rightarrow> (Inl e, st1)
      | (Inr created, st1) \<Rightarrow> (Inr (), emit (segments_add created) (add_forEach created st1)))"

subsection \<open>Queries\<close>

text \<open>\<open>getSegments\<close> returns \<open>this._segments\<close>: the address of the array. Two queries
  are left out, since what they return is decided by the class \<open>Segment\<close>, which is not
  among the sources: \<open>find\<close> filters by \<open>Segment.isVisible\<close>, and \<open>getSegment\<close> reads
  \<open>this._segmentsById[id]\<close> through the prototype chain, on which the members of a
  segment can lie.\<close>

definition getSegments :: "state \<Rightarrow> nat" where
  "getSegments st = segments st"

definition getSegmentsAtTime :: "number \<Rightarrow> state \<Rightarrow> segment list" where
  "getSegmentsAtTime time st =
     filter (\<lambda>sg. ge time (startTime sg) \<and> lt time (endTime sg)) (heap st (segments st))"

subsection \<open>Removing\<close>

text \<open>The loop of \<open>_findSegment\<close>; \<open>len\<close> is the length read once before the loop.\<close>

function findSegment_loop ::
  "(segment \<Rightarrow> bool) \<Rightarrow> segment list \<Rightarrow> nat \<Rightarrow> nat \<Rightarrow> int list \<Rightarrow> int list" where
  "findSegment_loop predicate sgs i len indexes =
     (if i < len then
        findSegment_loop predicate sgs (i + 1) len
          (if predicate (sgs ! i) then indexes @ [int i] else indexes)
      else indexes)"
  by pat_completeness auto
termination
  by (relation "measure (\<lambda>(predicate, sgs, i, len, indexes). len - i)") auto

declare findSegment_loop.simps [simp del]

definition findSegment :: "(segment \<Rightarrow> bool) \<Rightarrow> state \<Rightarrow> int list" where
  "findSegment predicate st =
     findSegment_loop predicate (heap st (segments st)) 0 (length (heap st (segments st))) []"

text \<open>\<open>xs.splice(start, 1)\<close> as (removed, remaining): a negative start counts from the
  end, a start beyond the end removes nothing.\<close>

definition splice1 :: "int \<Rightarrow> 'a list \<Rightarrow> 'a list \<times> 'a list" where
  "splice1 start xs =
     (let len = int (length xs);
          k = nat (if start < 0 then max (len + start) 0 else min start len)
      in (take 1 (drop k xs), take k xs @ drop (k + 1) xs))"

text \<open>The loop of \<open>_removeIndexes\<close>, with \<open>removed\<close> as accumulator. When \<open>splice\<close>
  removes nothing, \<open>itemRemoved\<close> is \<open>undefined\<close> and reading its \<open>id\<close> throws; the array
  has been spliced (unchanged) by then.\<close>

fun removeIndexes_loop ::
  "int list \<Rightarrow> segment list \<Rightarrow> state \<Rightarrow> (error + segment list) \<times> state" where
  "removeIndexes_loop [] removed st = (Inr removed, st)"
| "removeIndexes_loop (ix # indexes) removed st =
     (let index = ix - int (length removed);
          (items, rest) = splice1 index (heap st (segments st));
          st1 = st\<lparr>heap := (heap st)(segments st := rest)\<rparr>
      in case items of
           [] \<Rightarrow> (Inl TypeError, st1)
         | itemRemoved # _ \<Rightarrow>
             removeIndexes_loop indexes (removed @ [itemRemoved])
               (st1\<lparr>segmentsById := (segmentsById st1)(id' itemRemoved := None)\<rparr>))"

definition removeIndexes :: "int list \<Rightarrow> state \<Rightarrow> (error + segment list) \<times> state" where
  "removeIndexes indexes st = removeIndexes_loop indexes [] st"

definition removeSegments ::
  "(segment \<Rightarrow> bool) \<Rightarrow> state \<Rightarrow> (error + segment list) \<times> state" where
  "removeSegments predicate st =
     (let indexes = findSegment predicate st in
      case removeIndexes indexes st of
        (Inl e, st1) \<Rightarrow> (Inl e, st1)
      | (Inr removed, st1) \<Rightarrow> (Inr removed, emit (segments_remove removed) st1))"

definition remove :: "segment \<Rightarrow> state \<Rightarrow> (error + segment list) \<times> state" where
  "remove sg st = removeSegments (\<lambda>s. oid s = oid sg) st"

definition removeById :: "string \<Rightarrow> state \<Rightarrow> (error + segment list) \<times> state" where
  "removeById segmentId st = removeSegments (\<lambda>sg. id' sg = segmentId) st"

text \<open>The second argument is \<open>None\<close> when \<open>typeof endTime\<close> is not \<open>'number'\<close>
  (omitted, or some other value).\<close>

definition removeByTime ::
  "number \<Rightarrow> number option \<Rightarrow> state \<Rightarrow> (error + segment list) \<times> state" where
  "removeByTime start endTime_arg st =
     (let endT = (case endTime_arg of Some x \<Rightarrow> x | None \<Rightarrow> Finite 0);
          fnFilter =
            (if gt endT (Finite 0) then
               (\<lambda>sg. strict_eq (startTime sg) start \<and> strict_eq (endTime sg) endT)
             else (\<lambda>sg. strict_eq (startTime sg) start))
      in removeSegments fnFilter st)"

text \<open>\<open>removeAll\<close> assigns a new, empty array and a new, empty object.\<close>

definition removeAll :: "state \<Rightarrow> state" where
  "removeAll st =
     emit segments_remove_all
       (st\<lparr>heap := (heap st)(next_addr st := []), segments := next_addr st,
           next_addr := next_addr st + 1, segmentsById := Map.empty,
           segmentsById_prototype := None\<rparr>)"

subsection \<open>The public mutators as calls\<close>

datatype call =
    Add "jsval list"
  | Remove segment
  | RemoveById string
  | RemoveByTime number "number option"
  | RemoveAll

text \<open>The state a call leaves behind, whether it returns or throws.\<close>

fun exec :: "call \<Rightarrow> state \<Rightarrow> state" where
  "exec (Add arguments) st = snd (add arguments st)"
| "exec (Remove sg) st = snd (remove sg st)"
| "exec (RemoveById i) st = snd (removeById i st)"
| "exec (RemoveByTime s e) st = snd (removeByTime s e st)"
| "exec RemoveAll st = removeAll st"


subsection \<open>The host's side of a returned array\<close>

text \<open>Whoever holds the address of an array can change its contents in place
  (\<open>push\<close>, \<open>splice\<close>, \<open>length = 0\<close>, \<open>sort\<close>, an indexed store): the array at \<open>a\<close>
  then holds \<open>xs\<close>.\<close>

definition array_write :: "nat \<Rightarrow> segment list \<Rightarrow> state \<Rightarrow> state" where
  "array_write a xs st = st\<lparr>heap := (heap st)(a := xs)\<rparr>"

subsection \<open>Notions used to state the properties\<close>

text \<open>Step 1 of \<open>add\<close> in the spec (4.3): every descriptor is normalized, in input
  order, with no look at the index; it is \<open>_createSegment\<close> run over the batch.\<close>

fun normalize_batch :: "jsval list \<Rightarrow> state \<Rightarrow> (error + segment list) \<times> state" where
  "normalize_batch [] st = (Inr [], st)"
| "normalize_batch (d # ds) st =
     (case createSegment d st of
        (Inl e, st1) \<Rightarrow> (Inl e, st1)
      | (Inr sg, st1) \<Rightarrow>
          (case normalize_batch ds st1 of
             (Inl e, st2) \<Rightarrow> (Inl e, st2)
           | (Inr sgs, st2) \<Rightarrow> (Inr (sg # sgs), st2)))"

text \<open>A descriptor that leaves the id, or the color, to the repository.\<close>

fun omits_id :: "jsval \<Rightarrow> bool" where
  "omits_id (JObject opts) = (opt_id opts = None)"
| "omits_id _ = False"

fun omits_color :: "jsval \<Rightarrow> bool" where
  "omits_color (JObject opts) = (opt_color opts = None)"
| "omits_color _ = False"

text \<open>The descriptors that the loop of \<open>add\<close> normalizes before it stops: those for which
  \<open>_createSegment\<close> returns. It is the whole batch when no descriptor throws; a descriptor
  that is rejected as a duplicate has been normalized, one that is no object has not.\<close>

fun normalized_part :: "jsval list \<Rightarrow> state \<Rightarrow> jsval list" where
  "normalized_part [] st = []"
| "normalized_part (d # ds) st =
     (case createSegment d st of
        (Inl e, st1) \<Rightarrow> []
      | (Inr sg, st1) \<Rightarrow>
          if objectHasProperty (segmentsById st1) (id' sg) then [d]
          else d # normalized_part ds st1)"

text \<open>The value of the id counter when the loop of \<open>add\<close>, started in \<open>st\<close>, comes to
  descriptor \<open>k\<close> of the batch: one \<open>++\<close> for every earlier descriptor without id.\<close>

definition counter_at :: "jsval list \<Rightarrow> nat \<Rightarrow> state \<Rightarrow> nat" where
  "counter_at batch k st =
     (js_incr ^^ length (filter omits_id (take k batch))) (segmentIdCounter st)"

text \<open>One advance of the color cursor, as \<open>_getSegmentColor\<close> makes it.\<close>

definition cursor_next :: "nat \<Rightarrow> nat" where
  "cursor_next c = (if js_incr c = length colors then 0 else js_incr c)"

text \<open>The positions, counted from \<open>k\<close>, of the elements that satisfy \<open>p\<close>.\<close>

fun positions :: "('a \<Rightarrow> bool) \<Rightarrow> 'a list \<Rightarrow> nat \<Rightarrow> nat list" where
  "positions p [] k = []"
| "positions p (x # xs) k =
     (if p x then k # positions p xs (k + 1) else positions p xs (k + 1))"


text \<open>Descriptors and states used in the examples.\<close>

definition descr :: "string option \<Rightarrow> rat \<Rightarrow> rat \<Rightarrow> jsval" where
  "descr i s e =
     JObject \<lparr>opt_id = i, opt_startTime = Finite s, opt_endTime = Finite e,
              opt_editable = None, opt_color = None, opt_labelText = None\<rparr>"

definition fresh :: state where
  "fresh = constructor False ''#ff0000''"

text \<open>A repository with two segments, \<open>[0, 10)\<close> under the explicit id \<open>a\<close> and
  \<open>[10, 20)\<close> under an automatic id.\<close>

definition pair_state :: state where
  "pair_state = snd (add [descr (Some ''a'') 0 10, descr None 10 20] fresh)"

text \<open>A repository with the one segment \<open>[2, 5)\<close>.\<close>

definition one_state :: state where
  "one_state = snd (add [descr (Some ''s'') 2 5] fresh)"

text \<open>A repository with one segment, of id \<open>x\<close>.\<close>

definition x_state :: state where
  "x_state = snd (add [descr (Some ''x'') 30 40] fresh)"


text \<open>A fresh repository of a host that asks for randomized colors.\<close>

definition random_state :: state where
  "random_state = constructor True ''#ff0000''"

text \<open>The invariants I1 and I2 of the spec: every segment of the ordered sequence is the
  value of the id index at its id, the index has no other key, and no two segments of the
  sequence share an id.\<close>

definition consistent :: "state \<Rightarrow> bool" where
  "consistent st =
     ((\<forall>sg \<in> set (ordered st). segmentsById st (id' sg) = Some sg) \<and>
      dom (segmentsById st) = id' ` set (ordered st) \<and>
      distinct (map id' (ordered st)))"

section \<open>Properties\<close>

subsection \<open>The removal loops\<close>

lemma findSegment_loop_positions:
  "i \<le> length sgs \<Longrightarrow>
   findSegment_loop p sgs i (length sgs) acc = acc @ map int (positions p (drop i sgs) i)"
proof (induction p sgs i "length sgs" acc rule: findSegment_loop.induct)
  case (1 p sgs i acc)
  show ?case
  proof (cases "i < length sgs")
    case True
    then have d: "drop i sgs = sgs ! i # drop (Suc i) sgs"
      by (simp add: Cons_nth_drop_Suc)
    from True have "Suc i \<le> length sgs" by simp
    with 1 True show ?thesis
      by (subst findSegment_loop.simps) (simp add: d)
  next
    case False
    with 1 have "i = length sgs" by simp
    then show ?thesis
      by (subst findSegment_loop.simps) simp
  qed
qed

lemma findSegment_positions:
  "findSegment p st = map int (positions p (ordered st) 0)"
  by (simp add: findSegment_def ordered_def findSegment_loop_positions)

lemma splice1_at:
  "splice1 (int (length A)) (A @ b # B) = ([b], A @ B)"
  by (simp add: splice1_def Let_def)

lemma restrict_del:
  "(m(k := None)) |` (- S) = m |` (- insert k S)"
  by (rule ext) (simp add: restrict_map_def)

text \<open>The invariant of the loop of \<open>_removeIndexes\<close>: the array is \<open>A @ B\<close>, where \<open>A\<close> is
  the part already scanned, with its matches gone, and the indexes still to come are the
  positions of the matches of \<open>B\<close>, counted in the array as it was at the start.\<close>

lemma removeIndexes_loop_positions:
  "heap st (segments st) = A @ B \<Longrightarrow>
   removeIndexes_loop (map int (positions p B (length A + length removed))) removed st =
     (Inr (removed @ filter p B),
      st\<lparr>heap := (heap st)(segments st := A @ filter (\<lambda>s. \<not> p s) B),
         segmentsById := segmentsById st |` (- id' ` set (filter p B))\<rparr>)"
proof (induction B arbitrary: A removed st)
  case Nil
  then have "(heap st)(segments st := A) = heap st" by auto
  then show ?case by simp
next
  case (Cons b B)
  show ?case
  proof (cases "p b")
    case True
    let ?st1 = "st\<lparr>heap := (heap st)(segments st := A @ B),
                    segmentsById := (segmentsById st)(id' b := None)\<rparr>"
    let ?rest = "map int (positions p B (length A + length (removed @ [b])))"
    have h: "heap ?st1 (segments ?st1) = A @ B" by simp
    have ix: "int (length A + length removed) - int (length removed) = int (length A)" by simp
    have sp: "splice1 (int (length A)) (heap st (segments st)) = ([b], A @ B)"
      by (simp only: Cons.prems splice1_at)
    have "removeIndexes_loop (map int (positions p (b # B) (length A + length removed))) removed st
            = removeIndexes_loop ?rest (removed @ [b]) ?st1"
      using True by (simp add: ix sp)
    also have "\<dots> = (Inr ((removed @ [b]) @ filter p B),
        ?st1\<lparr>heap := (heap ?st1)(segments ?st1 := A @ filter (\<lambda>s. \<not> p s) B),
             segmentsById := segmentsById ?st1 |` (- id' ` set (filter p B))\<rparr>)"
      by (rule Cons.IH [OF h])
    also have "\<dots> = (Inr (removed @ filter p (b # B)),
        st\<lparr>heap := (heap st)(segments st := A @ filter (\<lambda>s. \<not> p s) (b # B)),
           segmentsById := segmentsById st |` (- id' ` set (filter p (b # B)))\<rparr>)"
      using True by (simp add: restrict_del del: restrict_fun_upd)
    finally show ?thesis .
  next
    case False
    from Cons.prems have h: "heap st (segments st) = (A @ [b]) @ B" by simp
    from Cons.IH [OF h, of removed] False show ?thesis by simp
  qed
qed

lemma removeSegments_eq:
  "removeSegments p st =
     (Inr (filter p (ordered st)),
      st\<lparr>heap := (heap st)(segments st := filter (\<lambda>s. \<not> p s) (ordered st)),
         segmentsById := segmentsById st |` (- id' ` set (filter p (ordered st))),
         emitted := emitted st @ [segments_remove (filter p (ordered st))]\<rparr>)"
proof -
  have "heap st (segments st) = [] @ ordered st" by (simp add: ordered_def)
  from removeIndexes_loop_positions [OF this, of p "[]"] show ?thesis
    by (simp add: removeSegments_def removeIndexes_def findSegment_positions emit_def)
qed

subsection \<open>Evaluating the examples\<close>

lemmas eval_defs =
  add_def segments_of_arguments_def descr_def fresh_def constructor_def createSegment_def
  getNextSegmentId_def getSegmentColor_def new_Segment_def objectHasProperty_def addSegment_def
  emit_def ordered_def string_of_nat.simps digit_def js_incr_def Let_def

lemma pair_state_ordered:
  "ordered pair_state =
     [\<lparr>oid = 0, id' = ''a'', startTime = Finite 0, endTime = Finite 10, editable = False,
        color = Some ''#ff0000'', labelText = []\<rparr>,
      \<lparr>oid = 1, id' = ''peaks.segment.0'', startTime = Finite 10, endTime = Finite 20,
        editable = False, color = Some ''#ff0000'', labelText = []\<rparr>]"
  by (simp add: pair_state_def eval_defs)

subsection \<open>Removal by predicate\<close>

text \<open>
  C2. For every predicate and every state, the removal algorithm behind \<open>remove\<close>,
  \<open>removeById\<close> and \<open>removeByTime\<close> returns exactly the elements of the ordered sequence
  that satisfy the predicate, in order; what stays is exactly the elements that do not, in
  their old relative order (so the drift of the indexes is compensated: nothing else is
  removed and no match is skipped); the id of every removed element is deleted from the id
  index and every other key keeps its entry; one removal notification carries the removed
  elements.
\<close>

theorem removeSegments_removes_exactly:
  "fst (removeSegments p st) = Inr (filter p (ordered st)) \<and>
   ordered (snd (removeSegments p st)) = filter (\<lambda>s. \<not> p s) (ordered st) \<and>
   (\<forall>sg \<in> set (ordered st). p sg \<longrightarrow>
        segmentsById (snd (removeSegments p st)) (id' sg) = None) \<and>
   (\<forall>k. k \<notin> id' ` {sg \<in> set (ordered st). p sg} \<longrightarrow>
        segmentsById (snd (removeSegments p st)) k = segmentsById st k) \<and>
   emitted (snd (removeSegments p st)) = emitted st @ [segments_remove (filter p (ordered st))]"
  by (simp add: removeSegments_eq ordered_def restrict_map_def)

theorem removeSegments_removes_exactly_witness:
  "map id' (ordered (snd (removeSegments (\<lambda>s. id' s = ''a'') pair_state)))
     = [''peaks.segment.0''] \<and>
   segmentsById (snd (removeSegments (\<lambda>s. id' s = ''a'') pair_state)) ''a'' = None"
  using removeSegments_removes_exactly [of "\<lambda>s. id' s = ''a''" pair_state]
  by (simp add: pair_state_ordered)

lemma one_state_ordered:
  "ordered one_state =
     [\<lparr>oid = 0, id' = ''s'', startTime = Finite 2, endTime = Finite 5, editable = False,
        color = Some ''#ff0000'', labelText = []\<rparr>]"
  by (simp add: one_state_def eval_defs)

text \<open>
  C8. \<open>removeByTime(startTime, endTime)\<close>: when \<open>endTime\<close> is omitted (or is no number),
  or is not greater than zero, exactly the segments whose start time equals (\<open>===\<close>) the
  given one are removed and returned; when \<open>endTime\<close> is greater than zero, exactly the
  segments whose start and end time both equal the given values.
\<close>

theorem removeByTime_dispatch:
  "((\<forall>x. e = Some x \<longrightarrow> \<not> gt x (Finite 0)) \<longrightarrow>
      fst (removeByTime s e st) = Inr (filter (\<lambda>sg. strict_eq (startTime sg) s) (ordered st)) \<and>
      ordered (snd (removeByTime s e st))
        = filter (\<lambda>sg. \<not> strict_eq (startTime sg) s) (ordered st)) \<and>
   (\<forall>x. e = Some x \<and> gt x (Finite 0) \<longrightarrow>
      fst (removeByTime s e st)
        = Inr (filter (\<lambda>sg. strict_eq (startTime sg) s \<and> strict_eq (endTime sg) x) (ordered st)) \<and>
      ordered (snd (removeByTime s e st))
        = filter (\<lambda>sg. \<not> (strict_eq (startTime sg) s \<and> strict_eq (endTime sg) x)) (ordered st))"
proof (cases e)
  case None
  have "\<not> gt (Finite 0) (Finite 0)" by (simp add: gt_def)
  with None show ?thesis
    by (simp add: removeByTime_def removeSegments_eq ordered_def Let_def)
next
  case (Some x)
  then show ?thesis
    by (simp add: removeByTime_def removeSegments_eq ordered_def Let_def)
qed

text \<open>The scenario of the spec: of \<open>[0, 10)\<close> and \<open>[10, 20)\<close>, \<open>removeByTime(10)\<close> removes
  only the second and \<open>removeByTime(0, 10)\<close> only the first.\<close>

theorem removeByTime_dispatch_witness:
  "map id' (ordered (snd (removeByTime (Finite 10) None pair_state))) = [''a''] \<and>
   map id' (ordered (snd (removeByTime (Finite 0) (Some (Finite 10)) pair_state)))
     = [''peaks.segment.0'']"
  using removeByTime_dispatch [of None "Finite 10" pair_state]
    removeByTime_dispatch [of "Some (Finite 10)" "Finite 0" pair_state]
  by (simp add: pair_state_ordered gt_def strict_eq_def)

subsection \<open>Queries\<close>

lemma js_less_refl: "x \<noteq> NaN \<Longrightarrow> js_less x x = Some False"
  by (cases x) simp_all

text \<open>
  C5. \<open>getSegmentsAtTime(t)\<close> returns exactly the segments with
  \<open>startTime <= t < endTime\<close>, in the order of the ordered sequence. A segment of the
  repository whose start time is \<open>t\<close> is returned (its interval being non-empty), a
  segment whose end time is \<open>t\<close> is not.
\<close>

theorem getSegmentsAtTime_half_open:
  "getSegmentsAtTime t st = filter (\<lambda>sg. le (startTime sg) t \<and> lt t (endTime sg)) (ordered st) \<and>
   (\<forall>sg \<in> set (ordered st). strict_eq (startTime sg) t \<and> lt (startTime sg) (endTime sg) \<longrightarrow>
        sg \<in> set (getSegmentsAtTime t st)) \<and>
   (\<forall>sg. strict_eq (endTime sg) t \<longrightarrow> sg \<notin> set (getSegmentsAtTime t st))"
  by (auto simp: getSegmentsAtTime_def ordered_def ge_def le_def lt_def strict_eq_def js_less_refl)

text \<open>The example of the spec: the segment \<open>[2, 5)\<close> is found at 2 and at 4.999, not at 5.\<close>

theorem getSegmentsAtTime_half_open_witness:
  "map id' (getSegmentsAtTime (Finite 2) one_state) = [''s''] \<and>
   getSegmentsAtTime (Finite 5) one_state = [] \<and>
   map id' (getSegmentsAtTime (Finite (4999 / 1000)) one_state) = [''s'']"
  using getSegmentsAtTime_half_open [of "Finite 2" one_state]
    getSegmentsAtTime_half_open [of "Finite 5" one_state]
    getSegmentsAtTime_half_open [of "Finite (4999 / 1000)" one_state]
  by (simp add: one_state_ordered le_def lt_def)

text \<open>
  C6 as stated fails: \<open>getSegments()\<close> returns \<open>this._segments\<close> itself. In the repository
  of two segments, emptying the returned array empties the ordered sequence, while the id
  index still holds the segment \<open>a\<close>.
\<close>

theorem getSegments_copy_counterexample:
  "ordered pair_state \<noteq> [] \<and>
   ordered (array_write (getSegments pair_state) [] pair_state) = [] \<and>
   segmentsById (array_write (getSegments pair_state) [] pair_state) ''a'' \<noteq> None"
  by (simp add: pair_state_def array_write_def getSegments_def eval_defs)

text \<open>
  C6, amended. \<open>getSegments()\<close> returns the repository's own array, not a copy: the array
  at the returned address holds the full ordered sequence, and whatever a caller writes
  into the returned array is from then on the ordered sequence of the repository, the id
  index staying as it was.
\<close>

theorem getSegments_returns_internal_array:
  "getSegments st = segments st \<and>
   heap st (getSegments st) = ordered st \<and>
   (\<forall>xs. ordered (array_write (getSegments st) xs st) = xs \<and>
         segmentsById (array_write (getSegments st) xs st) = segmentsById st)"
  by (simp add: getSegments_def ordered_def array_write_def)

subsection \<open>Adding\<close>

lemma createSegment_not_object:
  "\<not> isObject d \<Longrightarrow> createSegment d st = (Inl TypeError, st)"
  by (simp add: createSegment_def)

lemma createSegment_object:
  "createSegment (JObject opts) st =
     (Inr \<lparr>oid = next_oid st,
           id' = (case opt_id opts of None \<Rightarrow> ''peaks.segment.'' @ string_of_nat (segmentIdCounter st)
                                     | Some x \<Rightarrow> x),
           startTime = opt_startTime opts, endTime = opt_endTime opts,
           editable = (case opt_editable opts of None \<Rightarrow> False | Some x \<Rightarrow> x),
           color = (case opt_color opts of
                      None \<Rightarrow> if randomizeSegmentColor st
                              then colors_at (cursor_next (colorIndex st))
                              else Some (segmentColor st)
                    | Some x \<Rightarrow> Some x),
           labelText = (case opt_labelText opts of None \<Rightarrow> [] | Some x \<Rightarrow> x)\<rparr>,
      st\<lparr>segmentIdCounter :=
           (if opt_id opts = None then js_incr (segmentIdCounter st) else segmentIdCounter st),
         colorIndex := (if opt_color opts = None \<and> randomizeSegmentColor st
                        then cursor_next (colorIndex st) else colorIndex st),
         next_oid := next_oid st + 1\<rparr>)"
  by (simp add: createSegment_def getNextSegmentId_def getSegmentColor_def new_Segment_def
      cursor_next_def Let_def split: option.split)

lemma createSegment_frame:
  "heap (snd (createSegment d st)) = heap st"
  "segments (snd (createSegment d st)) = segments st"
  "segmentsById (snd (createSegment d st)) = segmentsById st"
  "emitted (snd (createSegment d st)) = emitted st"
  "randomizeSegmentColor (snd (createSegment d st)) = randomizeSegmentColor st"
  by (cases d; simp add: createSegment_object createSegment_not_object)+

lemma createSegment_counter:
  "segmentIdCounter (snd (createSegment d st)) =
     (if omits_id d then js_incr (segmentIdCounter st) else segmentIdCounter st)"
  by (cases d) (simp_all add: createSegment_object createSegment_not_object)

lemma createSegment_colorIndex:
  "colorIndex (snd (createSegment d st)) =
     (if omits_color d \<and> randomizeSegmentColor st then cursor_next (colorIndex st)
      else colorIndex st)"
  by (cases d) (simp_all add: createSegment_object createSegment_not_object)

lemma createSegment_Inr_object:
  "createSegment d st = (Inr sg, st1) \<Longrightarrow> isObject d"
  by (cases d) (simp_all add: createSegment_not_object)

lemma add_map_frame:
  "heap (snd (add_map ds st)) = heap st \<and>
   segments (snd (add_map ds st)) = segments st \<and>
   segmentsById (snd (add_map ds st)) = segmentsById st \<and>
   emitted (snd (add_map ds st)) = emitted st \<and>
   randomizeSegmentColor (snd (add_map ds st)) = randomizeSegmentColor st"
proof (induction ds arbitrary: st)
  case Nil
  show ?case by simp
next
  case (Cons d ds)
  obtain r st1 where c: "createSegment d st = (r, st1)" by (cases "createSegment d st")
  from createSegment_frame [of d st] c
  have f: "heap st1 = heap st" "segments st1 = segments st" "segmentsById st1 = segmentsById st"
    "emitted st1 = emitted st" "randomizeSegmentColor st1 = randomizeSegmentColor st"
    by simp_all
  show ?case
  proof (cases r)
    case (Inl e)
    with c f show ?thesis by simp
  next
    case (Inr sg)
    obtain r2 st2 where m: "add_map ds st1 = (r2, st2)" by (cases "add_map ds st1")
    from Cons.IH [of st1] m f
    have "heap st2 = heap st" "segments st2 = segments st" "segmentsById st2 = segmentsById st"
      "emitted st2 = emitted st" "randomizeSegmentColor st2 = randomizeSegmentColor st"
      by simp_all
    with c f Inr m show ?thesis by (cases r2) simp_all
  qed
qed

lemma addSegment_fields:
  "heap (addSegment sg st) = (heap st)(segments st := heap st (segments st) @ [sg])"
  "segments (addSegment sg st) = segments st"
  "emitted (addSegment sg st) = emitted st"
  "segmentIdCounter (addSegment sg st) = segmentIdCounter st"
  "colorIndex (addSegment sg st) = colorIndex st"
  "segmentsById (addSegment sg st) =
     (if id' sg = ''__proto__'' \<and> segmentsById st ''__proto__'' = None then segmentsById st
      else (segmentsById st)(id' sg \<mapsto> sg))"
  by (simp_all add: addSegment_def Let_def)

lemma add_forEach_heap:
  "heap (add_forEach sgs st) = (heap st)(segments st := heap st (segments st) @ sgs) \<and>
   segments (add_forEach sgs st) = segments st"
  by (induction sgs arbitrary: st) (auto simp: addSegment_fields(1,2) fun_eq_iff)

lemma add_forEach_ordered: "ordered (add_forEach sgs st) = ordered st @ sgs"
  by (simp add: ordered_def add_forEach_heap)

lemma add_forEach_byId:
  "segmentsById (add_forEach sgs st) =
     fold (\<lambda>sg m. if id' sg = ''__proto__'' \<and> m ''__proto__'' = None then m
                   else m(id' sg \<mapsto> sg)) sgs (segmentsById st)"
  by (induction sgs arbitrary: st) (simp_all add: addSegment_fields(6))

lemma add_forEach_frame:
  "emitted (add_forEach sgs st) = emitted st"
  "segmentIdCounter (add_forEach sgs st) = segmentIdCounter st"
  "colorIndex (add_forEach sgs st) = colorIndex st"
  by (induction sgs arbitrary: st) (simp_all add: addSegment_fields)

text \<open>The loop of \<open>add\<close> against plain normalization.\<close>

lemma normalize_batch_frame:
  "segmentsById (snd (normalize_batch ds st)) = segmentsById st"
proof (induction ds arbitrary: st)
  case Nil
  show ?case by simp
next
  case (Cons d ds)
  obtain r st1 where c: "createSegment d st = (r, st1)" by (cases "createSegment d st")
  with createSegment_frame(3) [of d st] have f: "segmentsById st1 = segmentsById st" by simp
  obtain r2 st2 where m: "normalize_batch ds st1 = (r2, st2)" by (cases "normalize_batch ds st1")
  with Cons.IH [of st1] f have "segmentsById st2 = segmentsById st" by simp
  with c f m show ?case by (cases r; cases r2) simp_all
qed

lemma add_map_duplicate:
  "normalize_batch pre st = (Inr sgs, st1) \<Longrightarrow> \<exists>sg \<in> set sgs. segmentsById st (id' sg) \<noteq> None \<Longrightarrow>
   fst (add_map (pre @ rest) st) = Inl DuplicateId"
proof (induction pre arbitrary: st sgs st1)
  case Nil
  then show ?case by simp
next
  case (Cons d pre)
  obtain r sta where c: "createSegment d st = (r, sta)" by (cases "createSegment d st")
  with createSegment_frame(3) [of d st] have f: "segmentsById sta = segmentsById st" by simp
  obtain r2 stb where m: "normalize_batch pre sta = (r2, stb)" by (cases "normalize_batch pre sta")
  from Cons.prems(1) c m obtain sg sgs' where
    r: "r = Inr sg" and r2: "r2 = Inr sgs'" and sgs: "sgs = sg # sgs'" and st1: "st1 = stb"
    by (cases r; cases r2) auto
  show ?case
  proof (cases "segmentsById st (id' sg) = None")
    case False
    with c r f show ?thesis by (simp add: objectHasProperty_def)
  next
    case True
    with Cons.prems(2) sgs have "\<exists>s \<in> set sgs'. segmentsById sta (id' s) \<noteq> None"
      by (auto simp: f)
    with Cons.IH [of sta sgs' stb] m r2 have "fst (add_map (pre @ rest) sta) = Inl DuplicateId"
      by simp
    with c r f True show ?thesis
      by (cases "add_map (pre @ rest) sta") (simp add: objectHasProperty_def)
  qed
qed

lemma add_map_normalize:
  "normalize_batch ds st = (Inr sgs, st1) \<Longrightarrow> \<forall>sg \<in> set sgs. segmentsById st (id' sg) = None \<Longrightarrow>
   add_map ds st = (Inr sgs, st1)"
proof (induction ds arbitrary: st sgs st1)
  case Nil
  then show ?case by simp
next
  case (Cons d ds)
  obtain r sta where c: "createSegment d st = (r, sta)" by (cases "createSegment d st")
  with createSegment_frame(3) [of d st] have f: "segmentsById sta = segmentsById st" by simp
  obtain r2 stb where m: "normalize_batch ds sta = (r2, stb)" by (cases "normalize_batch ds sta")
  from Cons.prems(1) c m obtain sg sgs' where
    r: "r = Inr sg" and r2: "r2 = Inr sgs'" and sgs: "sgs = sg # sgs'" and st1: "st1 = stb"
    by (cases r; cases r2) auto
  from Cons.prems(2) sgs f have "\<forall>s \<in> set sgs'. segmentsById sta (id' s) = None" by simp
  with Cons.IH [of sta sgs' stb] m r2 have "add_map ds sta = (Inr sgs', stb)" by simp
  with c r f Cons.prems(2) sgs st1 show ?case by (simp add: objectHasProperty_def)
qed

lemma add_map_length:
  "add_map ds st = (Inr sgs, st1) \<Longrightarrow> length sgs = length ds"
proof (induction ds arbitrary: st sgs st1)
  case Nil
  then show ?case by simp
next
  case (Cons d ds)
  obtain r sta where c: "createSegment d st = (r, sta)" by (cases "createSegment d st")
  obtain r2 stb where m: "add_map ds sta = (r2, stb)" by (cases "add_map ds sta")
  from Cons.prems c m obtain sg sgs' where "r = Inr sg" "r2 = Inr sgs'" "sgs = sg # sgs'"
    by (cases r; cases r2) (auto split: if_splits)
  with Cons.IH [of sta sgs' stb] m show ?case by simp
qed

lemma add_success:
  assumes "add_map (segments_of_arguments arguments) st = (Inr sgs, st1)"
  shows "fst (add arguments st) = Inr ()"
    and "ordered (snd (add arguments st)) = ordered st @ sgs"
    and "emitted (snd (add arguments st)) = emitted st @ [segments_add sgs]"
    and "segmentsById (snd (add arguments st))
           = fold (\<lambda>sg m. if id' sg = ''__proto__'' \<and> m ''__proto__'' = None then m
                         else m(id' sg \<mapsto> sg)) sgs (segmentsById st)"
proof -
  from add_map_frame [of "segments_of_arguments arguments" st] assms
  have f: "heap st1 = heap st" "segments st1 = segments st" "segmentsById st1 = segmentsById st"
    "emitted st1 = emitted st" by simp_all
  from assms show "fst (add arguments st) = Inr ()" by (simp add: add_def)
  from assms f show "ordered (snd (add arguments st)) = ordered st @ sgs"
    by (simp add: add_def emit_def ordered_def add_forEach_heap)
  from assms f show "emitted (snd (add arguments st)) = emitted st @ [segments_add sgs]"
    by (simp add: add_def emit_def add_forEach_frame)
  from assms f show "segmentsById (snd (add arguments st))
           = fold (\<lambda>sg m. if id' sg = ''__proto__'' \<and> m ''__proto__'' = None then m
                         else m(id' sg \<mapsto> sg)) sgs (segmentsById st)"
    by (simp add: add_def emit_def add_forEach_byId)
qed

lemma add_failure:
  assumes "fst (add_map (segments_of_arguments arguments) st) = Inl e"
  shows "fst (add arguments st) = Inl e"
    and "ordered (snd (add arguments st)) = ordered st"
    and "emitted (snd (add arguments st)) = emitted st"
    and "segmentsById (snd (add arguments st)) = segmentsById st"
proof -
  obtain st1 where m: "add_map (segments_of_arguments arguments) st = (Inl e, st1)"
    using assms by (cases "add_map (segments_of_arguments arguments) st") simp
  from add_map_frame [of "segments_of_arguments arguments" st] m
  have f: "heap st1 = heap st" "segments st1 = segments st" "segmentsById st1 = segmentsById st"
    "emitted st1 = emitted st" by simp_all
  from m f show "fst (add arguments st) = Inl e" "ordered (snd (add arguments st)) = ordered st"
    "emitted (snd (add arguments st)) = emitted st"
    "segmentsById (snd (add arguments st)) = segmentsById st"
    by (simp_all add: add_def ordered_def)
qed

lemma normalize_batch_nth:
  "normalize_batch ds st = (Inr sgs, st1) \<Longrightarrow>
   length sgs = length ds \<and>
   (\<forall>k < length ds. \<forall>opts a. ds ! k = JObject opts \<and> opt_id opts = Some a \<longrightarrow> id' (sgs ! k) = a)"
proof (induction ds arbitrary: st sgs st1)
  case Nil
  then show ?case by simp
next
  case (Cons d ds)
  obtain r sta where c: "createSegment d st = (r, sta)" by (cases "createSegment d st")
  obtain r2 stb where m: "normalize_batch ds sta = (r2, stb)" by (cases "normalize_batch ds sta")
  from Cons.prems c m obtain sg sgs' where
    r: "r = Inr sg" and r2: "r2 = Inr sgs'" and sgs: "sgs = sg # sgs'"
    by (cases r; cases r2) auto
  from Cons.IH [of sta sgs' stb] m r2
  have ih: "length sgs' = length ds"
    "\<And>k opts a. k < length ds \<Longrightarrow> ds ! k = JObject opts \<Longrightarrow> opt_id opts = Some a \<Longrightarrow> id' (sgs' ! k) = a"
    by simp_all
  have hd: "\<And>opts a. d = JObject opts \<Longrightarrow> opt_id opts = Some a \<Longrightarrow> id' sg = a"
    using c r by (auto simp: createSegment_object)
  show ?case
  proof (intro conjI allI impI)
    show "length sgs = length (d # ds)" by (simp add: sgs ih(1))
  next
    fix k opts a
    assume k: "k < length (d # ds)" and o: "(d # ds) ! k = JObject opts \<and> opt_id opts = Some a"
    show "id' (sgs ! k) = a"
    proof (cases k)
      case 0
      with o hd sgs show ?thesis by simp
    next
      case (Suc k')
      with k o ih(2) [of k' opts a] sgs show ?thesis by simp
    qed
  qed
qed

lemma x_state_vals:
  "map id' (ordered x_state) = [''x'']" "segmentsById x_state ''x'' \<noteq> None"
  "segmentsById x_state ''a'' = None" "length (emitted x_state) = 1"
  by (simp_all add: x_state_def eval_defs)

text \<open>
  C3. When the id of a normalized descriptor of the batch is already a key of the id index,
  \<open>add\<close> throws the duplicate-id error, the ordered sequence and the id index are what
  they were, and nothing is emitted. The normalized descriptors are those the loop of
  \<open>add\<close> reaches: \<open>pre\<close> is any part of the batch, from its start, that normalizes, and
  \<open>rest\<close>, which may be empty, is whatever follows.
\<close>

theorem add_duplicate_id_atomic:
  assumes "segments_of_arguments arguments = pre @ rest"
    and "normalize_batch pre st = (Inr sgs, st1)"
    and "\<exists>sg \<in> set sgs. segmentsById st (id' sg) \<noteq> None"
  shows "fst (add arguments st) = Inl DuplicateId \<and>
         ordered (snd (add arguments st)) = ordered st \<and>
         segmentsById (snd (add arguments st)) = segmentsById st \<and>
         emitted (snd (add arguments st)) = emitted st"
proof -
  obtain r st2 where m: "add_map (pre @ rest) st = (r, st2)" by (cases "add_map (pre @ rest) st")
  with add_map_duplicate [OF assms(2,3), of rest] have r: "r = Inl DuplicateId" by simp
  from add_map_frame [of "pre @ rest" st] m
  have "heap st2 = heap st" "segments st2 = segments st" "segmentsById st2 = segmentsById st"
    "emitted st2 = emitted st" by simp_all
  with m r assms(1) show ?thesis by (simp add: add_def ordered_def)
qed

text \<open>With \<open>x\<close> in the repository, a batch of \<open>b\<close>, \<open>x\<close> and a value that is no object
  is rejected for the duplicate id.\<close>

theorem add_duplicate_id_atomic_witness:
  "fst (add [JArray [descr (Some ''b'') 0 1, descr (Some ''x'') 1 2, JOther]] x_state)
     = Inl DuplicateId \<and>
   map id' (ordered (snd (add [JArray [descr (Some ''b'') 0 1, descr (Some ''x'') 1 2, JOther]]
                            x_state))) = [''x''] \<and>
   length (emitted (snd (add [JArray [descr (Some ''b'') 0 1, descr (Some ''x'') 1 2, JOther]]
                           x_state))) = 1"
proof -
  let ?pre = "[descr (Some ''b'') 0 1, descr (Some ''x'') 1 2]"
  let ?b = "\<lparr>oid = 1, id' = ''b'', startTime = Finite 0, endTime = Finite 1, editable = False,
             color = Some ''#ff0000'', labelText = []\<rparr>"
  let ?x = "\<lparr>oid = 2, id' = ''x'', startTime = Finite 1, endTime = Finite 2, editable = False,
             color = Some ''#ff0000'', labelText = []\<rparr>"
  have a: "segments_of_arguments [JArray (?pre @ [JOther])] = ?pre @ [JOther]"
    by (simp add: segments_of_arguments_def)
  have n: "normalize_batch ?pre x_state = (Inr [?b, ?x], snd (normalize_batch ?pre x_state))"
    by (simp add: x_state_def eval_defs)
  have h: "\<exists>sg \<in> set [?b, ?x]. segmentsById x_state (id' sg) \<noteq> None"
    using x_state_vals(2) by simp
  from add_duplicate_id_atomic [OF a n h] show ?thesis
    by (simp add: x_state_vals)
qed

text \<open>
  C4 as stated fails: a batch that contains two descriptors with the same new id \<open>a\<close> and
  a third descriptor whose id \<open>x\<close> is in the repository is rejected, and neither of the
  two is inserted.
\<close>

theorem add_same_id_in_batch_counterexample:
  "segmentsById x_state ''a'' = None \<and>
   fst (add [JArray [descr (Some ''a'') 0 10, descr (Some ''a'') 10 20, descr (Some ''x'') 20 30]]
          x_state) = Inl DuplicateId \<and>
   map id' (ordered (snd (add [JArray [descr (Some ''a'') 0 10, descr (Some ''a'') 10 20,
                                      descr (Some ''x'') 20 30]] x_state))) = [''x'']"
  by (simp add: x_state_def eval_defs)

text \<open>
  C4, amended. When every descriptor of the batch normalizes and no normalized id of the
  batch is a key of the id index, two descriptors of the batch with the same explicit id
  both pass the check, which looks at the index as it was before the call only; the
  whole batch is appended to the ordered sequence, which then holds two elements with
  one id.
\<close>

theorem add_same_id_in_batch:
  assumes "normalize_batch (segments_of_arguments arguments) st = (Inr sgs, st1)"
    and "\<forall>sg \<in> set sgs. segmentsById st (id' sg) = None"
    and "i < j" and "j < length (segments_of_arguments arguments)"
    and "segments_of_arguments arguments ! i = JObject di" and "opt_id di = Some a"
    and "segments_of_arguments arguments ! j = JObject dj" and "opt_id dj = Some a"
  shows "fst (add arguments st) = Inr () \<and>
         ordered (snd (add arguments st)) = ordered st @ sgs \<and>
         length sgs = length (segments_of_arguments arguments) \<and>
         id' (sgs ! i) = a \<and> id' (sgs ! j) = a \<and>
         \<not> distinct (map id' (ordered (snd (add arguments st))))"
proof -
  let ?batch = "segments_of_arguments arguments"
  from add_map_normalize [OF assms(1,2)] have m: "add_map ?batch st = (Inr sgs, st1)" .
  from add_map_frame [of ?batch st] m have f: "ordered st1 = ordered st"
    by (simp add: ordered_def)
  from m have ok: "fst (add arguments st) = Inr ()"
    and ord: "ordered (snd (add arguments st)) = ordered st @ sgs"
    by (simp_all add: add_def emit_def ordered_def add_forEach_heap f [unfolded ordered_def]
        add_map_frame [of ?batch st, unfolded m, simplified])
  from normalize_batch_nth [OF assms(1)] assms(3-8)
  have len: "length sgs = length ?batch" and i: "id' (sgs ! i) = a" and j: "id' (sgs ! j) = a"
    by auto
  let ?n = "length (ordered st)"
  have "?n + i < length (ordered st @ sgs)" "?n + j < length (ordered st @ sgs)" "?n + i \<noteq> ?n + j"
    using assms(3,4) len by simp_all
  moreover have "map id' (ordered st @ sgs) ! (?n + i) = map id' (ordered st @ sgs) ! (?n + j)"
    using assms(3,4) len i j by (simp add: nth_append)
  ultimately have "\<not> distinct (map id' (ordered st @ sgs))"
    by (metis distinct_conv_nth length_map)
  with ok ord len i j show ?thesis by simp
qed


theorem add_same_id_in_batch_witness:
  "fst (add [JArray [descr (Some ''a'') 0 10, descr (Some ''a'') 10 20]] fresh) = Inr () \<and>
   map id' (ordered (snd (add [JArray [descr (Some ''a'') 0 10, descr (Some ''a'') 10 20]] fresh)))
     = [''a'', ''a'']"
proof -
  let ?args = "[JArray [descr (Some ''a'') 0 10, descr (Some ''a'') 10 20]]"
  let ?s0 = "\<lparr>oid = 0, id' = ''a'', startTime = Finite 0, endTime = Finite 10, editable = False,
              color = Some ''#ff0000'', labelText = []\<rparr>"
  let ?s1 = "\<lparr>oid = 1, id' = ''a'', startTime = Finite 10, endTime = Finite 20, editable = False,
              color = Some ''#ff0000'', labelText = []\<rparr>"
  have n: "normalize_batch (segments_of_arguments ?args) fresh
             = (Inr [?s0, ?s1], snd (normalize_batch (segments_of_arguments ?args) fresh))"
    by (simp add: eval_defs)
  have h: "\<forall>sg \<in> set [?s0, ?s1]. segmentsById fresh (id' sg) = None"
    by (simp add: fresh_def constructor_def)
  have o: "ordered fresh = []" by (simp add: eval_defs)
  from add_same_id_in_batch [OF n h, of 0 1 _ "''a''"] show ?thesis
    by (simp add: segments_of_arguments_def descr_def o)
qed

text \<open>
  C10. When the first argument is not an array, \<open>add(d1, d2)\<close> does what \<open>add([d1, d2])\<close>
  does: same result, same state. When it returns, the two segments have been appended in
  order and one notification carries both; when it throws, the ordered sequence and the
  notifications are what they were.
\<close>

theorem add_variadic:
  assumes "\<not> isArray d1"
  shows "add [d1, d2] st = add [JArray [d1, d2]] st \<and>
         (fst (add [d1, d2] st) = Inr () \<longrightarrow>
            (\<exists>s1 s2. ordered (snd (add [d1, d2] st)) = ordered st @ [s1, s2] \<and>
                     emitted (snd (add [d1, d2] st)) = emitted st @ [segments_add [s1, s2]])) \<and>
         (fst (add [d1, d2] st) \<noteq> Inr () \<longrightarrow>
            ordered (snd (add [d1, d2] st)) = ordered st \<and>
            emitted (snd (add [d1, d2] st)) = emitted st)"
proof -
  from assms have sa: "segments_of_arguments [d1, d2] = [d1, d2]"
    by (simp add: segments_of_arguments_def)
  have eq: "add [d1, d2] st = add [JArray [d1, d2]] st"
    using assms by (simp add: add_def segments_of_arguments_def)
  obtain r st1 where m: "add_map [d1, d2] st = (r, st1)" by (cases "add_map [d1, d2] st")
  show ?thesis
  proof (cases r)
    case (Inl e)
    with m sa add_failure [of "[d1, d2]" st e] eq show ?thesis by simp
  next
    case (Inr sgs)
    with m add_map_length [of "[d1, d2]" st sgs st1] have "length sgs = 2" by simp
    then obtain s1 s2 where "sgs = [s1, s2]"
      by (cases sgs; cases "tl sgs") auto
    with m Inr sa add_success [of "[d1, d2]" st sgs st1] eq show ?thesis by simp
  qed
qed

theorem add_variadic_witness:
  "add [descr (Some ''a'') 0 10, descr None 10 20] fresh
     = add [JArray [descr (Some ''a'') 0 10, descr None 10 20]] fresh \<and>
   map id' (ordered (snd (add [descr (Some ''a'') 0 10, descr None 10 20] fresh)))
     = [''a'', ''peaks.segment.0'']"
proof -
  have na: "\<not> isArray (descr (Some ''a'') 0 10)" by (simp add: descr_def)
  from add_variadic [OF na, of "descr None 10 20" fresh]
  have "add [descr (Some ''a'') 0 10, descr None 10 20] fresh
          = add [JArray [descr (Some ''a'') 0 10, descr None 10 20]] fresh"
    by (rule conjunct1)
  moreover have "map id' (ordered (snd (add [descr (Some ''a'') 0 10, descr None 10 20] fresh)))
     = [''a'', ''peaks.segment.0'']"
    using pair_state_ordered by (simp add: pair_state_def)
  ultimately show ?thesis by (rule conjI)
qed

subsection \<open>Normalization\<close>

text \<open>The counters under repeated \<open>++\<close>.\<close>

lemma js_incr_funpow:
  "(js_incr ^^ n) c = (if 2 ^ 53 \<le> c then c else min (c + n) (2 ^ 53))"
  by (induction n) (auto simp: js_incr_def)

lemma js_incr_funpow_exact:
  "c + n \<le> 2 ^ 53 \<Longrightarrow> (js_incr ^^ n) c = c + n"
  by (auto simp: js_incr_funpow)

lemma cursor_next_mod:
  assumes "c < length colors"
  shows "cursor_next c = (c + 1) mod length colors"
proof -
  have len: "length colors = 10" by (simp add: colors_def)
  with assms have "c < 10" by simp
  then have "js_incr c = c + 1" by (simp add: js_incr_def)
  with \<open>c < 10\<close> show ?thesis by (auto simp: cursor_next_def len)
qed

lemma cursor_next_funpow:
  "c < length colors \<Longrightarrow> (cursor_next ^^ m) c = (c + m) mod length colors"
proof (induction m)
  case 0
  then show ?case by simp
next
  case (Suc m)
  have len: "length colors = 10" by (simp add: colors_def)
  have "(c + m) mod length colors < length colors" by (simp add: len)
  from cursor_next_mod [OF this] Suc show ?case
    by (simp add: mod_Suc_eq)
qed

lemma normalized_part_prefix:
  "normalized_part batch st = take (length (normalized_part batch st)) batch"
proof (induction batch arbitrary: st)
  case Nil
  show ?case by simp
next
  case (Cons d ds)
  obtain r st1 where c: "createSegment d st = (r, st1)" by (cases "createSegment d st")
  show ?case
  proof (cases r)
    case (Inl e)
    with c show ?thesis by simp
  next
    case (Inr sg)
    with c Cons.IH [of st1] show ?thesis by simp
  qed
qed

lemma normalized_part_all:
  "add_map batch st = (Inr sgs, st1) \<Longrightarrow> normalized_part batch st = batch"
proof (induction batch arbitrary: st sgs st1)
  case Nil
  then show ?case by simp
next
  case (Cons d ds)
  obtain r sta where c: "createSegment d st = (r, sta)" by (cases "createSegment d st")
  obtain r2 stb where m: "add_map ds sta = (r2, stb)" by (cases "add_map ds sta")
  from Cons.prems c m obtain sg sgs' where r: "r = Inr sg" "r2 = Inr sgs'"
    and n: "\<not> objectHasProperty (segmentsById sta) (id' sg)"
    by (cases r; cases r2) (auto split: if_splits)
  with Cons.IH [of sta sgs' stb] m c show ?case by simp
qed

lemma add_map_counter:
  "segmentIdCounter (snd (add_map batch st)) =
     (js_incr ^^ length (filter omits_id (normalized_part batch st))) (segmentIdCounter st)"
proof (induction batch arbitrary: st)
  case Nil
  show ?case by simp
next
  case (Cons d ds)
  obtain r st1 where c: "createSegment d st = (r, st1)" by (cases "createSegment d st")
  from createSegment_counter [of d st] c
  have k: "segmentIdCounter st1 =
             (if omits_id d then js_incr (segmentIdCounter st) else segmentIdCounter st)"
    by simp
  show ?case
  proof (cases r)
    case (Inl e)
    with c have "\<not> isObject d" by (cases d) (simp_all add: createSegment_object)
    then have "\<not> omits_id d" by (cases d) simp_all
    with c Inl k show ?thesis by simp
  next
    case (Inr sg)
    obtain r2 st2 where m: "add_map ds st1 = (r2, st2)" by (cases "add_map ds st1")
    from Cons.IH [of st1] m
    have "segmentIdCounter st2 =
            (js_incr ^^ length (filter omits_id (normalized_part ds st1))) (segmentIdCounter st1)"
      by simp
    with c Inr m k show ?thesis
      by (cases r2) (simp_all add: funpow_swap1)
  qed
qed

lemma add_map_colorIndex:
  "colorIndex (snd (add_map batch st)) =
     (if randomizeSegmentColor st
      then (cursor_next ^^ length (filter omits_color (normalized_part batch st))) (colorIndex st)
      else colorIndex st)"
proof (induction batch arbitrary: st)
  case Nil
  show ?case by simp
next
  case (Cons d ds)
  obtain r st1 where c: "createSegment d st = (r, st1)" by (cases "createSegment d st")
  from createSegment_colorIndex [of d st] createSegment_frame(5) [of d st] c
  have k: "colorIndex st1 = (if omits_color d \<and> randomizeSegmentColor st
                             then cursor_next (colorIndex st) else colorIndex st)"
    and f: "randomizeSegmentColor st1 = randomizeSegmentColor st"
    by simp_all
  show ?case
  proof (cases r)
    case (Inl e)
    with c have "\<not> isObject d" by (cases d) (simp_all add: createSegment_object)
    then have "\<not> omits_color d" by (cases d) simp_all
    with c Inl k show ?thesis by simp
  next
    case (Inr sg)
    obtain r2 st2 where m: "add_map ds st1 = (r2, st2)" by (cases "add_map ds st1")
    from Cons.IH [of st1] m f
    have "colorIndex st2 =
            (if randomizeSegmentColor st
             then (cursor_next ^^ length (filter omits_color (normalized_part ds st1))) (colorIndex st1)
             else colorIndex st1)"
      by simp
    with c Inr m k show ?thesis
      by (cases r2) (simp_all add: funpow_swap1)
  qed
qed

text \<open>
  C9 as stated fails: normalizing one descriptor that has neither id nor color, in a
  fresh repository with randomized colors, moves the id counter and the color cursor.
\<close>

theorem normalization_counterexample:
  "segmentIdCounter (snd (add_map [descr None 0 10] random_state)) = 1 \<and>
   segmentIdCounter random_state = 0 \<and>
   colorIndex (snd (add_map [descr None 0 10] random_state)) = 1 \<and>
   colorIndex random_state = 0"
  by (simp add: random_state_def constructor_def descr_def createSegment_object colors_def
      objectHasProperty_def js_incr_def cursor_next_def)

text \<open>
  C9, amended. The loop of \<open>add\<close> that normalizes the batch leaves the ordered sequence
  and the id index alone and emits nothing. It does write the two counters: the id
  counter is incremented once, by \<open>++\<close>, for every descriptor without id that the loop
  normalizes, and, when colors are randomized, the color cursor is advanced once for
  every descriptor without color that the loop normalizes; without randomized colors the
  cursor stays. The descriptors that the loop normalizes are a prefix of the batch, and
  the whole batch when no descriptor throws. \<open>n\<close> increments add \<open>n\<close> to the id counter as
  long as the sum does not pass \<open>2^53\<close>, and \<open>m\<close> advances of a cursor inside the palette
  add \<open>m\<close> modulo the length of the palette.
\<close>

theorem normalization_effects:
  "ordered (snd (add_map batch st)) = ordered st \<and>
   segmentsById (snd (add_map batch st)) = segmentsById st \<and>
   emitted (snd (add_map batch st)) = emitted st \<and>
   segmentIdCounter (snd (add_map batch st))
     = (js_incr ^^ length (filter omits_id (normalized_part batch st))) (segmentIdCounter st) \<and>
   colorIndex (snd (add_map batch st))
     = (if randomizeSegmentColor st
        then (cursor_next ^^ length (filter omits_color (normalized_part batch st))) (colorIndex st)
        else colorIndex st) \<and>
   normalized_part batch st = take (length (normalized_part batch st)) batch \<and>
   (\<forall>sgs. fst (add_map batch st) = Inr sgs \<longrightarrow> normalized_part batch st = batch) \<and>
   (\<forall>n. segmentIdCounter st + n \<le> 2 ^ 53 \<longrightarrow>
        (js_incr ^^ n) (segmentIdCounter st) = segmentIdCounter st + n) \<and>
   (\<forall>m. colorIndex st < length colors \<longrightarrow>
        (cursor_next ^^ m) (colorIndex st) = (colorIndex st + m) mod length colors)"
proof -
  obtain r st1 where m: "add_map batch st = (r, st1)" by (cases "add_map batch st")
  from add_map_frame [of batch st] m
  have "ordered st1 = ordered st" "segmentsById st1 = segmentsById st" "emitted st1 = emitted st"
    by (simp_all add: ordered_def)
  moreover from m have "\<forall>sgs. r = Inr sgs \<longrightarrow> normalized_part batch st = batch"
    by (auto dest: normalized_part_all)
  moreover note add_map_counter [of batch st] add_map_colorIndex [of batch st]
    normalized_part_prefix [of batch st]
  ultimately show ?thesis
    using m by (simp add: js_incr_funpow_exact cursor_next_funpow)
qed

text \<open>In a fresh repository with randomized colors: a batch of three descriptors, two
  without id and all without color, passes and leaves counter 2 and cursor 3; a batch
  whose second element is no object throws there and leaves counter 1 and cursor 1.\<close>

theorem normalization_effects_witness:
  "segmentIdCounter (snd (add_map [descr None 0 10, descr (Some ''a'') 0 10, descr None 0 10]
                            random_state)) = 2 \<and>
   colorIndex (snd (add_map [descr None 0 10, descr (Some ''a'') 0 10, descr None 0 10]
                      random_state)) = 3 \<and>
   ordered (snd (add_map [descr None 0 10, descr (Some ''a'') 0 10, descr None 0 10]
                   random_state)) = [] \<and>
   segmentIdCounter (snd (add_map [descr None 0 10, JOther, descr None 0 10] random_state)) = 1 \<and>
   colorIndex (snd (add_map [descr None 0 10, JOther, descr None 0 10] random_state)) = 1"
proof -
  let ?b = "[descr None 0 10, descr (Some ''a'') 0 10, descr None 0 10]"
  let ?t = "[descr None 0 10, JOther, descr None 0 10]"
  have n: "normalized_part ?b random_state = ?b" "normalized_part ?t random_state = [descr None 0 10]"
    by (simp_all add: random_state_def constructor_def descr_def createSegment_object
        createSegment_not_object objectHasProperty_def)
  have v: "randomizeSegmentColor random_state" "colorIndex random_state = 0"
    "segmentIdCounter random_state = 0" "ordered random_state = []"
    by (simp_all add: random_state_def constructor_def ordered_def)
  have e: "(js_incr ^^ 2) 0 = 2" "(js_incr ^^ 1) 0 = 1"
    using js_incr_funpow_exact [of 0 2] js_incr_funpow_exact [of 0 1] by simp_all
  have e': "(cursor_next ^^ 3) 0 = 3" "(cursor_next ^^ 1) 0 = 1"
    using cursor_next_funpow [of 0 3] cursor_next_funpow [of 0 1] by (simp_all add: colors_def)
  have o: "length (filter omits_id ?b) = 2" "length (filter omits_color ?b) = 3"
    "length (filter omits_id [descr None 0 10]) = 1"
    "length (filter omits_color [descr None 0 10]) = 1"
    by (simp_all add: descr_def)
  from normalization_effects [of ?b random_state] normalization_effects [of ?t random_state]
  show ?thesis
    by (simp only: n v e e' o if_True)
qed

subsection \<open>Automatic ids\<close>
















text \<open>\<open>counter_at\<close> is the counter the loop has when the descriptors before \<open>k\<close> have
  passed.\<close>

lemma counter_at_current:
  assumes "add_map (take k batch) st = (Inr pre, st1)"
  shows "segmentIdCounter st1 = counter_at batch k st"
proof -
  from add_map_counter [of "take k batch" st] assms
  have "segmentIdCounter st1 =
          (js_incr ^^ length (filter omits_id (normalized_part (take k batch) st)))
            (segmentIdCounter st)"
    by simp
  with normalized_part_all [OF assms] show ?thesis by (simp add: counter_at_def)
qed












subsection \<open>The two indexes\<close>

text \<open>
  The fresh repository is consistent, and every public call keeps a consistent repository
  consistent, \<open>add\<close> with a proviso: the segments it creates from the batch have pairwise
  distinct ids, none of them \<open>__proto__\<close>. Against the ids already in the index \<open>add\<close>
  checks itself.
\<close>

lemma consistent_constructor: "consistent (constructor r c)"
  by (simp add: consistent_def constructor_def ordered_def)

lemma consistent_removeAll: "consistent (removeAll st)"
  by (simp add: consistent_def removeAll_def emit_def ordered_def)

lemma consistent_removeSegments:
  assumes "consistent st"
  shows "consistent (snd (removeSegments p st))"
proof -
  let ?xs = "ordered st"
  let ?st' = "snd (removeSegments p st)"
  have o: "ordered ?st' = filter (\<lambda>s. \<not> p s) ?xs"
    and b: "segmentsById ?st' = segmentsById st |` (- id' ` set (filter p ?xs))"
    by (simp_all add: removeSegments_eq ordered_def)
  from assms have inj: "inj_on id' (set ?xs)"
    by (simp add: consistent_def distinct_map)
  have keep: "id' s \<notin> id' ` set (filter p ?xs)" if "s \<in> set ?xs" "\<not> p s" for s
  proof
    assume "id' s \<in> id' ` set (filter p ?xs)"
    then obtain s' where "s' \<in> set ?xs" "p s'" "id' s = id' s'" by auto
    with inj that show False by (auto dest: inj_onD)
  qed
  have 1: "\<forall>sg \<in> set (ordered ?st'). segmentsById ?st' (id' sg) = Some sg"
    using assms keep by (auto simp: o b consistent_def restrict_map_def)
  have 2: "dom (segmentsById ?st') = id' ` set (ordered ?st')"
  proof -
    have "dom (segmentsById ?st') = id' ` set ?xs - id' ` set (filter p ?xs)"
      using assms by (auto simp: b consistent_def)
    also have "\<dots> = id' ` set (filter (\<lambda>s. \<not> p s) ?xs)"
      using keep by auto
    finally show ?thesis by (simp add: o)
  qed
  have 3: "distinct (map id' (ordered ?st'))"
    using assms by (simp add: o consistent_def distinct_map_filter)
  from 1 2 3 show ?thesis by (simp add: consistent_def)
qed

lemma fold_upd_other:
  "k \<notin> id' ` set sgs \<Longrightarrow> fold (\<lambda>sg m. m(id' sg \<mapsto> sg)) sgs m k = m k"
  by (induction sgs arbitrary: m) auto

lemma fold_upd_same:
  "distinct (map id' sgs) \<Longrightarrow> sg \<in> set sgs \<Longrightarrow>
   fold (\<lambda>sg m. m(id' sg \<mapsto> sg)) sgs m (id' sg) = Some sg"
  by (induction sgs arbitrary: m) (auto simp: fold_upd_other)

lemma fold_upd_dom:
  "dom (fold (\<lambda>sg m. m(id' sg \<mapsto> sg)) sgs m) = dom m \<union> id' ` set sgs"
  by (induction sgs arbitrary: m) auto

lemma fold_store_plain:
  "\<forall>sg \<in> set sgs. id' sg \<noteq> ''__proto__'' \<Longrightarrow>
   fold (\<lambda>sg m. if id' sg = ''__proto__'' \<and> m ''__proto__'' = None then m
                 else m(id' sg \<mapsto> sg)) sgs m
     = fold (\<lambda>sg m. m(id' sg \<mapsto> sg)) sgs m"
  by (induction sgs arbitrary: m) simp_all

lemma add_map_new_ids:
  "add_map ds st = (Inr sgs, st1) \<Longrightarrow> \<forall>sg \<in> set sgs. segmentsById st (id' sg) = None"
proof (induction ds arbitrary: st sgs st1)
  case Nil
  then show ?case by simp
next
  case (Cons d ds)
  obtain r sta where c: "createSegment d st = (r, sta)" by (cases "createSegment d st")
  with createSegment_frame(3) [of d st] have f: "segmentsById sta = segmentsById st" by simp
  obtain r2 stb where m: "add_map ds sta = (r2, stb)" by (cases "add_map ds sta")
  from Cons.prems c m obtain sg sgs' where r: "r = Inr sg" "r2 = Inr sgs'" "sgs = sg # sgs'"
    and n: "segmentsById sta (id' sg) = None"
    by (cases r; cases r2) (auto simp: objectHasProperty_def split: if_splits)
  with Cons.IH [of sta sgs' stb] m f show ?case by simp
qed

lemma consistent_add:
  assumes "consistent st"
    and "\<And>sgs st1. add_map (segments_of_arguments arguments) st = (Inr sgs, st1) \<Longrightarrow>
           distinct (map id' sgs) \<and> (\<forall>sg \<in> set sgs. id' sg \<noteq> ''__proto__'')"
  shows "consistent (snd (add arguments st))"
proof -
  let ?b = "segments_of_arguments arguments"
  let ?st' = "snd (add arguments st)"
  obtain r st1 where m: "add_map ?b st = (r, st1)" by (cases "add_map ?b st")
  show ?thesis
  proof (cases r)
    case (Inl e)
    with m add_failure [of arguments st e] assms(1) show ?thesis
      by (simp add: consistent_def)
  next
    case (Inr sgs)
    with m have m': "add_map ?b st = (Inr sgs, st1)" by simp
    from assms(2) [OF m'] have d: "distinct (map id' sgs)"
      and np: "\<forall>sg \<in> set sgs. id' sg \<noteq> ''__proto__''" by simp_all
    from add_success [OF m'] fold_store_plain [OF np, of "segmentsById st"]
    have o: "ordered ?st' = ordered st @ sgs"
      and b: "segmentsById ?st' = fold (\<lambda>sg m. m(id' sg \<mapsto> sg)) sgs (segmentsById st)"
      by simp_all
    from add_map_new_ids [OF m'] have new: "\<forall>sg \<in> set sgs. id' sg \<notin> dom (segmentsById st)"
      by (simp add: domIff)
    have disj: "id' ` set (ordered st) \<inter> id' ` set sgs = {}"
    proof -
      from assms(1) have "id' ` set (ordered st) = dom (segmentsById st)"
        by (simp add: consistent_def)
      with new show ?thesis by auto
    qed
    have 1: "\<forall>sg \<in> set (ordered ?st'). segmentsById ?st' (id' sg) = Some sg"
    proof
      fix sg assume "sg \<in> set (ordered ?st')"
      then consider "sg \<in> set (ordered st)" | "sg \<in> set sgs" by (auto simp: o)
      then show "segmentsById ?st' (id' sg) = Some sg"
      proof cases
        case 1
        with disj have "id' sg \<notin> id' ` set sgs" by auto
        with 1 assms(1) show ?thesis by (simp add: b fold_upd_other consistent_def)
      next
        case 2
        with d show ?thesis by (simp add: b fold_upd_same)
      qed
    qed
    have 2: "dom (segmentsById ?st') = id' ` set (ordered ?st')"
      using assms(1) by (simp add: o b fold_upd_dom consistent_def image_Un)
    have 3: "distinct (map id' (ordered ?st'))"
      using assms(1) d disj by (simp add: o consistent_def)
    from 1 2 3 show ?thesis by (simp add: consistent_def)
  qed
qed

lemma consistent_exec:
  assumes "consistent st"
    and "\<And>arguments sgs st1. c = Add arguments \<Longrightarrow>
           add_map (segments_of_arguments arguments) st = (Inr sgs, st1) \<Longrightarrow>
           distinct (map id' sgs) \<and> (\<forall>sg \<in> set sgs. id' sg \<noteq> ''__proto__'')"
  shows "consistent (exec c st)"
proof (cases c)
  case (Add arguments)
  with assms consistent_add [of st arguments] show ?thesis by simp
next
  case (Remove sg)
  with assms(1) show ?thesis by (simp add: remove_def consistent_removeSegments)
next
  case (RemoveById i)
  with assms(1) show ?thesis by (simp add: removeById_def consistent_removeSegments)
next
  case (RemoveByTime s e)
  with assms(1) show ?thesis
    by (simp add: removeByTime_def Let_def consistent_removeSegments)
next
  case RemoveAll
  then show ?thesis by (simp add: consistent_removeAll)
qed


text \<open>
  C1 does not hold of \<open>add\<close>. In a fresh repository, one call of \<open>add\<close> with a batch of
  two descriptors of id \<open>a\<close> returns; the ordered sequence then holds two segments of id
  \<open>a\<close>, the objects 0 and 1; the id index has the single key \<open>a\<close>, bound to object 1, so
  that object 0 is in the sequence and not in the index.
\<close>

theorem invariant_broken_by_batch:
  "consistent fresh \<and>
   fst (add [JArray [descr (Some ''a'') 0 10, descr (Some ''a'') 10 20]] fresh) = Inr () \<and>
   \<not> consistent (snd (add [JArray [descr (Some ''a'') 0 10, descr (Some ''a'') 10 20]] fresh)) \<and>
   map id' (ordered (snd (add [JArray [descr (Some ''a'') 0 10, descr (Some ''a'') 10 20]] fresh)))
     = [''a'', ''a''] \<and>
   map oid (ordered (snd (add [JArray [descr (Some ''a'') 0 10, descr (Some ''a'') 10 20]] fresh)))
     = [0, 1] \<and>
   map_option oid
     (segmentsById (snd (add [JArray [descr (Some ''a'') 0 10, descr (Some ''a'') 10 20]] fresh))
        ''a'') = Some 1 \<and>
   dom (segmentsById (snd (add [JArray [descr (Some ''a'') 0 10, descr (Some ''a'') 10 20]]
                              fresh))) = {''a''}"
proof -
  let ?st = "snd (add [JArray [descr (Some ''a'') 0 10, descr (Some ''a'') 10 20]] fresh)"
  have ids: "map id' (ordered ?st) = [''a'', ''a'']"
    by (simp add: eval_defs)
  have "\<not> distinct (map id' (ordered ?st))"
    by (simp only: ids) simp
  then have "\<not> consistent ?st"
    by (simp add: consistent_def)
  moreover have "consistent fresh"
    by (simp add: fresh_def consistent_constructor)
  moreover have "fst (add [JArray [descr (Some ''a'') 0 10, descr (Some ''a'') 10 20]] fresh)
                   = Inr ()"
    "map oid (ordered ?st) = [0, 1]"
    "map_option oid (segmentsById ?st ''a'') = Some 1"
    "dom (segmentsById ?st) = {''a''}"
    by (simp_all add: eval_defs)
  ultimately show ?thesis using ids by simp
qed

text \<open>The two segments of the sequence then carry one id.\<close>

theorem invariant_broken_by_batch_witness:
  "\<not> distinct (map id'
      (ordered (snd (add [JArray [descr (Some ''a'') 0 10, descr (Some ''a'') 10 20]] fresh))))"
  using invariant_broken_by_batch by simp

end
